theory Spec2Isabelle
  imports Main "HOL-Library.AList"
begin

section \<open>The host: strings, paths and a POSIX file system\<close>

text \<open>
  The server (\<^verbatim>\<open>Flask_Server/server.py\<close>) is three Flask handlers over the process's
  working directory. Everything the handlers do goes through library calls
  (\<^verbatim>\<open>os.getcwd\<close>, \<^verbatim>\<open>os.path.join\<close>, \<^verbatim>\<open>os.listdir\<close>, \<^verbatim>\<open>os.path.isfile\<close>,
  \<^verbatim>\<open>FileStorage.save\<close>, \<^verbatim>\<open>send_from_directory\<close>), so the embedding starts with a
  model of those calls on a POSIX host:
  \<^item> a path string is a \<open>string\<close>, split at \<open>/\<close> as the kernel does;
  \<^item> the file system maps absolute, resolved paths (lists of entry names from the root)
    to nodes; there are no symbolic links, permissions always suffice and the disk is
    never full;
  \<^item> every exception the calls can raise is a value of \<open>error\<close>.
\<close>

type_synonym bytes = string

type_synonym path = "string list"

datatype node = File bytes | Dir

type_synonym filesystem = "(path \<times> node) list"

text \<open>
  \<open>NotFound\<close> is werkzeug's HTTP exception (status 404); \<open>OSError\<close> stands for
  \<^verbatim>\<open>FileNotFoundError\<close>, \<^verbatim>\<open>NotADirectoryError\<close> and \<^verbatim>\<open>IsADirectoryError\<close>;
  \<open>ValueError\<close> is raised for a path with an embedded null byte.
\<close>

datatype error = NotFound | OSError | ValueError

definition startswith :: "string \<Rightarrow> string \<Rightarrow> bool" where
  "startswith s p = (take (length p) s = p)"

definition endswith_slash :: "string \<Rightarrow> bool" where
  "endswith_slash s = (s \<noteq> [] \<and> last s = CHR ''/'')"

text \<open>\<^verbatim>\<open>s.split('/')\<close>: never empty, \<^verbatim>\<open>''.split('/') == ['']\<close>.\<close>

fun split_slash :: "string \<Rightarrow> string list" where
  "split_slash [] = [[]]"
| "split_slash (c # cs) =
     (if c = CHR ''/'' then [] # split_slash cs
      else (case split_slash cs of [] \<Rightarrow> [[c]] | w # ws \<Rightarrow> (c # w) # ws))"

text \<open>\<^verbatim>\<open>'/'.join(comps)\<close>.\<close>

fun join_slash :: "string list \<Rightarrow> string" where
  "join_slash [] = []"
| "join_slash [x] = x"
| "join_slash (x # y # ys) = x @ CHR ''/'' # join_slash (y # ys)"

text \<open>
  \<^verbatim>\<open>posixpath.join(a, b)\<close> for two arguments:
  \<^verbatim>\<open>
  if b.startswith('/'): path = b
  elif not path or path.endswith('/'): path += b
  else: path += '/' + b
  \<close>
\<close>

definition os_path_join :: "string \<Rightarrow> string \<Rightarrow> string" where
  "os_path_join a b =
     (if startswith b ''/'' then b
      else if a = [] \<or> endswith_slash a then a @ b
      else a @ ''/'' @ b)"

definition os_path_isabs :: "string \<Rightarrow> bool" where
  "os_path_isabs s = startswith s ''/''"

text \<open>\<^verbatim>\<open>posixpath.basename\<close>: what follows the last slash.\<close>

definition os_path_basename :: "string \<Rightarrow> string" where
  "os_path_basename p = last (split_slash p)"

text \<open>
  The loop of \<^verbatim>\<open>posixpath.normpath\<close> over the components, with \<open>new_comps\<close> as
  accumulator:
  \<^verbatim>\<open>
  for comp in comps:
      if comp in ('', '.'): continue
      if (comp != '..' or (not initial_slashes and not new_comps) or
           (new_comps and new_comps[-1] == '..')):
          new_comps.append(comp)
      elif new_comps:
          new_comps.pop()
  \<close>
\<close>

fun normpath_comps :: "bool \<Rightarrow> string list \<Rightarrow> string list \<Rightarrow> string list" where
  "normpath_comps initial_slashes new_comps [] = new_comps"
| "normpath_comps initial_slashes new_comps (c # cs) =
     (if c = [] \<or> c = ''.'' then normpath_comps initial_slashes new_comps cs
      else if c \<noteq> ''..'' \<or> (\<not> initial_slashes \<and> new_comps = [])
              \<or> (new_comps \<noteq> [] \<and> last new_comps = ''..'')
        then normpath_comps initial_slashes (new_comps @ [c]) cs
      else if new_comps \<noteq> [] then normpath_comps initial_slashes (butlast new_comps) cs
      else normpath_comps initial_slashes new_comps cs)"

definition normpath :: "string \<Rightarrow> string" where
  "normpath p =
     (if p = [] then ''.''
      else
        let initial_slashes =
              (if startswith p ''/''
               then (if startswith p ''//'' \<and> \<not> startswith p ''///'' then 2 else 1)
               else (0::nat));
            new_comps = normpath_comps (initial_slashes \<noteq> 0) [] (split_slash p);
            q = replicate initial_slashes CHR ''/'' @ join_slash new_comps
        in if q = [] then ''.'' else q)"

subsection \<open>Path resolution by the kernel\<close>

text \<open>
  The kernel looks up one component after the other. Looking anything up in the current
  location needs that location to be a directory; an empty component and \<open>.\<close> stay,
  \<open>..\<close> goes to the parent (the root is its own parent), a name goes down. The last
  location reached need not exist.
\<close>

fun walk :: "filesystem \<Rightarrow> path \<Rightarrow> string list \<Rightarrow> error + path" where
  "walk fs cur [] = Inr cur"
| "walk fs cur (c # cs) =
     (case map_of fs cur of
        Some Dir \<Rightarrow>
          walk fs (if c = [] \<or> c = ''.'' then cur
                   else if c = ''..'' then butlast cur
                   else cur @ [c]) cs
      | _ \<Rightarrow> Inl OSError)"

definition resolve :: "filesystem \<Rightarrow> path \<Rightarrow> string \<Rightarrow> error + path" where
  "resolve fs wd p =
     (if p = [] then Inl OSError
      else walk fs (if startswith p ''/'' then [] else wd) (split_slash p))"

text \<open>
  \<^verbatim>\<open>open(p, 'wb')\<close> followed by writing \<open>data\<close> and closing: creates or truncates a
  regular file. It fails on a null byte, when an intermediate directory is missing or is
  a file, and when the path names a directory (also by a last component \<open>.\<close>, \<open>..\<close>
  or a trailing slash).
\<close>

definition open_wb :: "filesystem \<Rightarrow> path \<Rightarrow> string \<Rightarrow> bytes \<Rightarrow> error + filesystem" where
  "open_wb fs wd p data =
     (if CHR 0x00 \<in> set p then Inl ValueError
      else case resolve fs wd p of
        Inl e \<Rightarrow> Inl e
      | Inr q \<Rightarrow>
          if last (split_slash p) \<in> {[], ''.'', ''..''} then Inl OSError
          else (case map_of fs q of
                  Some Dir \<Rightarrow> Inl OSError
                | _ \<Rightarrow> Inr (AList.update q (File data) fs)))"

text \<open>\<^verbatim>\<open>open(p, 'rb').read()\<close>.\<close>

definition open_rb :: "filesystem \<Rightarrow> path \<Rightarrow> string \<Rightarrow> error + bytes" where
  "open_rb fs wd p =
     (if CHR 0x00 \<in> set p then Inl ValueError
      else case resolve fs wd p of
        Inl e \<Rightarrow> Inl e
      | Inr q \<Rightarrow> (case map_of fs q of Some (File data) \<Rightarrow> Inr data | _ \<Rightarrow> Inl OSError))"

text \<open>\<^verbatim>\<open>os.path.isfile\<close> never raises: every failure of \<^verbatim>\<open>os.stat\<close> is \<open>False\<close>.\<close>

definition os_path_isfile :: "filesystem \<Rightarrow> path \<Rightarrow> string \<Rightarrow> bool" where
  "os_path_isfile fs wd p =
     (if CHR 0x00 \<in> set p then False
      else case resolve fs wd p of
        Inl e \<Rightarrow> False
      | Inr q \<Rightarrow> (case map_of fs q of Some (File data) \<Rightarrow> True | _ \<Rightarrow> False))"

text \<open>The entries directly inside directory \<open>d\<close>, in the order the file system holds them.\<close>

definition entries :: "filesystem \<Rightarrow> path \<Rightarrow> string list" where
  "entries fs d = remdups (map last (filter (\<lambda>k. k \<noteq> [] \<and> butlast k = d) (map fst fs)))"

definition os_listdir :: "filesystem \<Rightarrow> path \<Rightarrow> string \<Rightarrow> error + string list" where
  "os_listdir fs wd p =
     (if CHR 0x00 \<in> set p then Inl ValueError
      else case resolve fs wd p of
        Inl e \<Rightarrow> Inl e
      | Inr q \<Rightarrow> (case map_of fs q of Some Dir \<Rightarrow> Inr (entries fs q) | _ \<Rightarrow> Inl OSError))"

section \<open>The process and the framework\<close>

text \<open>
  The state the handlers see: the working directory of the process, the application's
  root path (Flask's \<^verbatim>\<open>app.root_path\<close>), the file system and what was printed.
\<close>

record world =
  cwd :: path
  root_path :: string
  disk :: filesystem
  stdout :: "string list"

definition os_getcwd :: "world \<Rightarrow> string" where
  "os_getcwd w = CHR ''/'' # join_slash (cwd w)"

text \<open>An uploaded part (werkzeug's \<^verbatim>\<open>FileStorage\<close>) and the request's \<^verbatim>\<open>files\<close> multi-dict.\<close>

record file_storage =
  filename :: string
  stream :: bytes

record request =
  files :: "(string \<times> file_storage) list"

datatype body = Text string | Json_files "string list" | Attachment string bytes

record response =
  status :: nat
  body :: body

text \<open>\<^verbatim>\<open>FileStorage.save(dst)\<close> for a string \<open>dst\<close>: opens it for writing and copies the stream.\<close>

definition save :: "file_storage \<Rightarrow> string \<Rightarrow> world \<Rightarrow> error + world" where
  "save file dst w =
     (case open_wb (disk w) (cwd w) dst (stream file) of
        Inl e \<Rightarrow> Inl e
      | Inr fs' \<Rightarrow> Inr (w\<lparr>disk := fs'\<rparr>))"

definition print :: "string \<Rightarrow> world \<Rightarrow> world" where
  "print line w = w\<lparr>stdout := stdout w @ [line]\<rparr>"

text \<open>
  \<^verbatim>\<open>werkzeug.security.safe_join(directory, filename)\<close> on POSIX (no alternative
  separators):
  \<^verbatim>\<open>
  if not directory: directory = "."
  if filename != "": filename = posixpath.normpath(filename)
  if (os.path.isabs(filename) or filename.startswith("/")
      or filename == ".." or filename.startswith("../")):
      return None
  return posixpath.join(directory, filename)
  \<close>
\<close>

definition safe_join :: "string \<Rightarrow> string \<Rightarrow> string option" where
  "safe_join directory name =
     (let directory = (if directory = [] then ''.'' else directory);
          name = (if name \<noteq> [] then normpath name else name)
      in if os_path_isabs name \<or> startswith name ''/''
            \<or> name = ''..'' \<or> startswith name ''../''
         then None
         else Some (os_path_join directory name))"

text \<open>
  \<^verbatim>\<open>send_file(path, as_attachment=True)\<close> for a request without conditional or range
  headers: status 200, the file's bytes, and a \<^verbatim>\<open>Content-Disposition: attachment\<close>
  header that names the path's base name.
\<close>

definition send_file :: "world \<Rightarrow> string \<Rightarrow> error + response" where
  "send_file w path_str =
     (case open_rb (disk w) (cwd w) path_str of
        Inl e \<Rightarrow> Inl e
      | Inr data \<Rightarrow> Inr \<lparr>status = 200, body = Attachment (os_path_basename path_str) data\<rparr>)"

text \<open>
  \<^verbatim>\<open>flask.send_from_directory(directory, path, as_attachment=True)\<close>:
  \<^verbatim>\<open>
  path_str = safe_join(directory, path)
  if path_str is None: raise NotFound()
  path_str = os.path.join(current_app.root_path, path_str)
  if not os.path.isfile(path_str): raise NotFound()
  return send_file(path_str, ...)
  \<close>
\<close>

definition send_from_directory :: "world \<Rightarrow> string \<Rightarrow> string \<Rightarrow> error + response" where
  "send_from_directory w directory path =
     (case safe_join directory path of
        None \<Rightarrow> Inl NotFound
      | Some p \<Rightarrow>
          let path_str = os_path_join (root_path w) p
          in if \<not> os_path_isfile (disk w) (cwd w) path_str then Inl NotFound
             else send_file w path_str)"

text \<open>
  What Flask answers when a handler raises: an HTTP exception is its own response
  (\<open>NotFound\<close>: 404 with werkzeug's default page), anything else is a 500.
\<close>

definition http_status :: "error + response \<Rightarrow> nat" where
  "http_status r = (case r of Inr resp \<Rightarrow> status resp | Inl NotFound \<Rightarrow> 404 | Inl e \<Rightarrow> 500)"

section \<open>The handlers of \<^verbatim>\<open>server.py\<close>\<close>

text \<open>
  \<^verbatim>\<open>
  def upload_file():
      if 'file' not in request.files:
          return "No file part", 400
      file = request.files['file']
      if file.filename == '':
          return "No selected file", 400
      save_path = os.path.join(os.getcwd(), file.filename)
      file.save(save_path)
      print(f"<check mark> Received file: {file.filename}")
      return "File uploaded successfully", 200
  \<close>
  The check mark of the log line is U+2705, three bytes in UTF-8.
\<close>

definition upload_file :: "request \<Rightarrow> world \<Rightarrow> (error + response) \<times> world" where
  "upload_file request w =
     (case map_of (files request) ''file'' of
        None \<Rightarrow> (Inr \<lparr>status = 400, body = Text ''No file part''\<rparr>, w)
      | Some file \<Rightarrow>
          if filename file = [] then (Inr \<lparr>status = 400, body = Text ''No selected file''\<rparr>, w)
          else
            let save_path = os_path_join (os_getcwd w) (filename file)
            in case save file save_path w of
                 Inl e \<Rightarrow> (Inl e, w)
               | Inr w' \<Rightarrow>
                   (Inr \<lparr>status = 200, body = Text ''File uploaded successfully''\<rparr>,
                    print ([CHR 0xE2, CHR 0x9C, CHR 0x85] @ '' Received file: '' @ filename file) w'))"

text \<open>
  \<^verbatim>\<open>
  def list_files():
      files = [f for f in os.listdir(os.getcwd())
               if os.path.isfile(os.path.join(os.getcwd(), f))]
      return {"files": files}, 200
  \<close>
\<close>

definition list_files :: "world \<Rightarrow> (error + response) \<times> world" where
  "list_files w =
     (case os_listdir (disk w) (cwd w) (os_getcwd w) of
        Inl e \<Rightarrow> (Inl e, w)
      | Inr names \<Rightarrow>
          (Inr \<lparr>status = 200,
                body = Json_files
                  (filter (\<lambda>f. os_path_isfile (disk w) (cwd w) (os_path_join (os_getcwd w) f)) names)\<rparr>,
           w))"

text \<open>
  \<^verbatim>\<open>
  def get_file(filename):
      return send_from_directory(os.getcwd(), filename, as_attachment=True)
  \<close>
\<close>

definition get_file :: "string \<Rightarrow> world \<Rightarrow> (error + response) \<times> world" where
  "get_file name w = (send_from_directory w (os_getcwd w) name, w)"

section \<open>Well-formed worlds and a client\<close>

text \<open>
  A name the file system admits for a directory entry: not empty, not \<open>.\<close> or \<open>..\<close>,
  without slash and without null byte.
\<close>

definition valid_name :: "string \<Rightarrow> bool" where
  "valid_name n =
     (n \<noteq> [] \<and> n \<noteq> ''.'' \<and> n \<noteq> ''..'' \<and> CHR ''/'' \<notin> set n \<and> CHR 0x00 \<notin> set n)"

text \<open>
  A world is well formed when the working directory exists (it and all its ancestors
  are directories) and every entry of the file system has admissible names.
\<close>

definition wf_world :: "world \<Rightarrow> bool" where
  "wf_world w =
     (list_all valid_name (cwd w)
      \<and> list_all (\<lambda>k. map_of (disk w) (take k (cwd w)) = Some Dir) [0..<Suc (length (cwd w))]
      \<and> list_all (\<lambda>(p, n). list_all valid_name p) (disk w))"

definition upload_request :: "string \<Rightarrow> bytes \<Rightarrow> request" where
  "upload_request name data = \<lparr>files = [(''file'', \<lparr>filename = name, stream = data\<rparr>)]\<rparr>"

text \<open>
  A client that uploads the given (filename, content) pairs one request after the other;
  it collects what the server answered to each.
\<close>

fun upload_each :: "(string \<times> bytes) list \<Rightarrow> world \<Rightarrow> (error + response) list \<times> world" where
  "upload_each [] w = ([], w)"
| "upload_each ((name, data) # rest) w =
     (let (a, w') = upload_file (upload_request name data) w;
          (as, w'') = upload_each rest w'
      in (a # as, w''))"

section \<open>A concrete deployment\<close>

text \<open>
  The server started in \<^verbatim>\<open>/srv/store\<close>, next to its own script and a subdirectory
  \<^verbatim>\<open>docs\<close>; the parent directory holds a file that is not meant to be served.
\<close>

definition store_disk :: filesystem where
  "store_disk =
     [([], Dir), ([''srv''], Dir), ([''srv'', ''secret.txt''], File ''key''),
      ([''srv'', ''store''], Dir),
      ([''srv'', ''store'', ''server.py''], File ''app''),
      ([''srv'', ''store'', ''docs''], Dir)]"

definition store_world :: world where
  "store_world = \<lparr>cwd = [''srv'', ''store''], root_path = ''/srv/store'',
                   disk = store_disk, stdout = []\<rparr>"

section \<open>Lemmas: splitting and joining path strings\<close>

text \<open>
  Splitting at the slash undoes joining, and a component never holds a slash.
\<close>

lemma split_slash_nonempty: "split_slash s \<noteq> []"
  by (induction s) (auto split: list.splits)

lemma split_slash_append:
  "split_slash (a @ CHR ''/'' # b) = split_slash a @ split_slash b"
  by (induction a) (auto split: list.splits simp: split_slash_nonempty)

lemma split_slash_noslash: "CHR ''/'' \<notin> set a \<Longrightarrow> split_slash a = [a]"
  by (induction a) auto

lemma split_slash_comp_noslash: "c \<in> set (split_slash s) \<Longrightarrow> CHR ''/'' \<notin> set c"
  by (induction s arbitrary: c) (auto split: if_splits list.splits)

lemma split_slash_comp_chars: "c \<in> set (split_slash s) \<Longrightarrow> x \<in> set c \<Longrightarrow> x \<in> set s"
  by (induction s arbitrary: c) (fastforce split: if_splits list.splits)+

lemma split_slash_join:
  "cs \<noteq> [] \<Longrightarrow> \<forall>c\<in>set cs. CHR ''/'' \<notin> set c \<Longrightarrow> split_slash (join_slash cs) = cs"
  by (induction cs rule: join_slash.induct) (auto simp: split_slash_append split_slash_noslash)

lemma join_slash_chars: "x \<in> set (join_slash cs) \<Longrightarrow> x = CHR ''/'' \<or> (\<exists>c\<in>set cs. x \<in> set c)"
  by (induction cs rule: join_slash.induct) auto

lemma startswith_slash: "startswith s ''/'' = (\<exists>t. s = CHR ''/'' # t)"
  by (cases s) (auto simp: startswith_def)

section \<open>Lemmas: the kernel's walk\<close>

text \<open>
  The walk composes over concatenated component lists, depends on the file system only
  through which paths are directories, and follows plain names down existing directories.
\<close>

lemma walk_append:
  "walk fs cur (xs @ ys) = (case walk fs cur xs of Inl e \<Rightarrow> Inl e | Inr q \<Rightarrow> walk fs q ys)"
  by (induction xs arbitrary: cur) (auto split: option.splits node.splits)

lemma walk_cong:
  "(\<And>p. (map_of fs' p = Some Dir) = (map_of fs p = Some Dir)) \<Longrightarrow> walk fs' cur cs = walk fs cur cs"
proof (induction cs arbitrary: cur)
  case Nil
  then show ?case by simp
next
  case (Cons c cs)
  show ?case
  proof (cases "map_of fs cur = Some Dir")
    case True
    then have "map_of fs' cur = Some Dir" using Cons.prems by simp
    with True show ?thesis using Cons.IH [OF Cons.prems] by simp
  next
    case False
    then have "map_of fs' cur \<noteq> Some Dir" using Cons.prems by simp
    with False show ?thesis by (auto split: option.splits node.splits)
  qed
qed



lemma walk_skip_empty: "cs \<noteq> [] \<Longrightarrow> walk fs cur ([] # cs) = walk fs cur cs"
  by (cases cs) (auto split: option.splits node.splits)

lemma walk_names:
  "\<forall>c\<in>set ns. c \<noteq> [] \<and> c \<noteq> ''.'' \<and> c \<noteq> ''..'' \<Longrightarrow>
   \<forall>k<length ns. map_of fs (base @ take k ns) = Some Dir \<Longrightarrow>
   walk fs base ns = Inr (base @ ns)"
proof (induction ns arbitrary: base)
  case Nil
  then show ?case by simp
next
  case (Cons c cs)
  have d: "map_of fs base = Some Dir" using Cons.prems(2) by fastforce
  have "\<forall>k<length cs. map_of fs ((base @ [c]) @ take k cs) = Some Dir"
  proof (intro allI impI)
    fix k assume "k < length cs"
    then have "map_of fs (base @ take (Suc k) (c # cs)) = Some Dir"
      using Cons.prems(2) by (metis Suc_less_eq length_Cons)
    then show "map_of fs ((base @ [c]) @ take k cs) = Some Dir" by simp
  qed
  then have "walk fs (base @ [c]) cs = Inr ((base @ [c]) @ cs)"
    using Cons.IH Cons.prems(1) by simp
  then show ?case using d Cons.prems(1) by simp
qed

section \<open>Lemmas: lexical normalisation against the kernel's walk\<close>

text \<open>
  Where the kernel resolves a relative path from a base directory and the lexical
  normal form of that path does not start with \<open>..\<close>, the kernel ends at the base
  followed by the normal form, and every directory on the way exists.
\<close>

lemma normpath_comps_append:
  "normpath_comps b new (xs @ ys) = normpath_comps b (normpath_comps b new xs) ys"
  by (induction xs arbitrary: new) auto

lemma normpath_comps_keeps_dotdot:
  "new \<noteq> [] \<Longrightarrow> hd new = ''..'' \<Longrightarrow>
   normpath_comps False new cs \<noteq> [] \<and> hd (normpath_comps False new cs) = ''..''"
proof (induction cs arbitrary: new)
  case Nil
  then show ?case by simp
next
  case (Cons c cs)
  have pop: "butlast new \<noteq> [] \<and> hd (butlast new) = ''..''" if "last new \<noteq> ''..''"
  proof -
    obtain x xs where n: "new = x # xs" using Cons.prems(1) by (cases new) auto
    with that Cons.prems(2) have "xs \<noteq> []" by auto
    with n Cons.prems(2) show ?thesis by simp
  qed
  show ?case using Cons.IH [of "new @ [c]"] Cons.IH [of new] Cons.IH [of "butlast new"] Cons.prems pop
    by auto
qed

lemma normpath_comps_step:
  "\<exists>N. normpath_comps b new (a # cs) = normpath_comps b N cs \<and> set N \<subseteq> insert a (set new)"
proof -
  have "normpath_comps b new (a # cs) = normpath_comps b new cs
      \<or> normpath_comps b new (a # cs) = normpath_comps b (new @ [a]) cs
      \<or> normpath_comps b new (a # cs) = normpath_comps b (butlast new) cs"
    by simp
  moreover have "set new \<subseteq> insert a (set new)" "set (new @ [a]) \<subseteq> insert a (set new)"
    "set (butlast new) \<subseteq> insert a (set new)"
    by (auto dest: in_set_butlastD)
  ultimately show ?thesis by blast
qed

lemma normpath_comps_subset:
  "c \<in> set (normpath_comps b new cs) \<Longrightarrow> c \<in> set new \<or> c \<in> set cs"
proof (induction cs arbitrary: new)
  case Nil
  then show ?case by simp
next
  case (Cons a cs)
  obtain N where N: "normpath_comps b new (a # cs) = normpath_comps b N cs"
      "set N \<subseteq> insert a (set new)"
    using normpath_comps_step by blast
  from Cons.prems N(1) have "c \<in> set (normpath_comps b N cs)" by simp
  then have "c \<in> set N \<or> c \<in> set cs" by (rule Cons.IH)
  with N(2) show ?case by auto
qed

lemma walk_normpath:
  "walk fs (base @ new) cs = Inr q \<Longrightarrow>
   \<forall>c\<in>set new. c \<noteq> [] \<and> c \<noteq> ''.'' \<and> c \<noteq> ''..'' \<Longrightarrow>
   \<forall>k<length new. map_of fs (base @ take k new) = Some Dir \<Longrightarrow>
   normpath_comps False new cs = [] \<or> hd (normpath_comps False new cs) \<noteq> ''..'' \<Longrightarrow>
   q = base @ normpath_comps False new cs
   \<and> (\<forall>c\<in>set (normpath_comps False new cs). c \<noteq> [] \<and> c \<noteq> ''.'' \<and> c \<noteq> ''..'')
   \<and> (\<forall>k<length (normpath_comps False new cs).
         map_of fs (base @ take k (normpath_comps False new cs)) = Some Dir)"
proof (induction cs arbitrary: new)
  case Nil
  then show ?case by simp
next
  case (Cons c cs)
  have d: "map_of fs (base @ new) = Some Dir"
    using Cons.prems(1) by (auto split: option.splits node.splits)
  consider (stay) "c = [] \<or> c = ''.''" | (up) "c = ''..''" | (name) "c \<noteq> [] \<and> c \<noteq> ''.'' \<and> c \<noteq> ''..''"
    by blast
  then show ?case
  proof cases
    case stay
    then have w: "walk fs (base @ new) cs = Inr q" using Cons.prems(1) d by auto
    have n: "normpath_comps False new (c # cs) = normpath_comps False new cs"
      using stay by auto
    have p: "normpath_comps False new cs = [] \<or> hd (normpath_comps False new cs) \<noteq> ''..''"
      using Cons.prems(4) unfolding n .
    show ?thesis unfolding n by (rule Cons.IH [OF w Cons.prems(2) Cons.prems(3) p])
  next
    case up
    show ?thesis
    proof (cases "new = []")
      case True
      then have "normpath_comps False new (c # cs) = normpath_comps False [''..''] cs"
        using up by simp
      then have "normpath_comps False [''..''] cs = []
          \<or> hd (normpath_comps False [''..''] cs) \<noteq> ''..''"
        using Cons.prems(4) by metis
      with normpath_comps_keeps_dotdot [of "[''..'']" cs] show ?thesis by simp
    next
      case False
      then have l: "last new \<noteq> ''..''" using Cons.prems(2) by (metis last_in_set)
      with False up have n: "normpath_comps False new (c # cs) = normpath_comps False (butlast new) cs"
        by simp
      have "butlast (base @ new) = base @ butlast new" using False by (simp add: butlast_append)
      then have w: "walk fs (base @ butlast new) cs = Inr q" using Cons.prems(1) d up by simp
      have a: "\<forall>c\<in>set (butlast new). c \<noteq> [] \<and> c \<noteq> ''.'' \<and> c \<noteq> ''..''"
        using Cons.prems(2) by (auto dest: in_set_butlastD)
      have b: "\<forall>k<length (butlast new). map_of fs (base @ take k (butlast new)) = Some Dir"
      proof (intro allI impI)
        fix k assume k: "k < length (butlast new)"
        then have "take k (butlast new) = take k new" by (simp add: take_butlast)
        moreover have "k < length new" using k by simp
        ultimately show "map_of fs (base @ take k (butlast new)) = Some Dir"
          using Cons.prems(3) by simp
      qed
      have p: "normpath_comps False (butlast new) cs = []
          \<or> hd (normpath_comps False (butlast new) cs) \<noteq> ''..''"
        using Cons.prems(4) unfolding n .
      show ?thesis unfolding n by (rule Cons.IH [OF w a b p])
    qed
  next
    case name
    then have n: "normpath_comps False new (c # cs) = normpath_comps False (new @ [c]) cs" by simp
    have w: "walk fs (base @ new @ [c]) cs = Inr q" using Cons.prems(1) d name by simp
    have a: "\<forall>x\<in>set (new @ [c]). x \<noteq> [] \<and> x \<noteq> ''.'' \<and> x \<noteq> ''..''"
      using Cons.prems(2) name by auto
    have b: "\<forall>k<length (new @ [c]). map_of fs (base @ take k (new @ [c])) = Some Dir"
    proof (intro allI impI)
      fix k assume k: "k < length (new @ [c])"
      show "map_of fs (base @ take k (new @ [c])) = Some Dir"
      proof (cases "k < length new")
        case True
        then show ?thesis using Cons.prems(3) by simp
      next
        case False
        with k have "k = length new" by simp
        then show ?thesis using d by simp
      qed
    qed
    have p: "normpath_comps False (new @ [c]) cs = []
        \<or> hd (normpath_comps False (new @ [c]) cs) \<noteq> ''..''"
      using Cons.prems(4) unfolding n .
    have w': "walk fs (base @ (new @ [c])) cs = Inr q" using w by simp
    show ?thesis unfolding n by (rule Cons.IH [OF w' a b p])
  qed
qed

section \<open>Lemmas: paths below the working directory\<close>

text \<open>
  A relative name joined to \<^verbatim>\<open>os.getcwd()\<close> is resolved by walking to the working
  directory first and along the name from there.
\<close>

lemma os_path_join_abs: "startswith p ''/'' \<Longrightarrow> os_path_join a p = p"
  by (simp add: os_path_join_def)

lemma join_getcwd_form:
  assumes "\<not> startswith b ''/''"
  shows "\<exists>x. os_path_join (os_getcwd w) b = x @ CHR ''/'' # b
           \<and> split_slash (os_getcwd w) = (if endswith_slash (os_getcwd w) then split_slash x @ [[]] else split_slash x)
           \<and> (x = [] \<or> startswith x ''/'')"
proof (cases "endswith_slash (os_getcwd w)")
  case True
  then have g: "os_getcwd w = butlast (os_getcwd w) @ [CHR ''/'']"
    by (metis append_butlast_last_id endswith_slash_def)
  have 1: "os_path_join (os_getcwd w) b = butlast (os_getcwd w) @ CHR ''/'' # b"
    using assms True g by (simp add: os_path_join_def)
  have 2: "split_slash (os_getcwd w) = split_slash (butlast (os_getcwd w)) @ [[]]"
    using split_slash_append [of "butlast (os_getcwd w)" "[]"] g by simp
  have 3: "butlast (os_getcwd w) = [] \<or> startswith (butlast (os_getcwd w)) ''/''"
    by (cases "join_slash (cwd w)") (auto simp: os_getcwd_def startswith_slash)
  show ?thesis using 1 2 3 True by auto
next
  case False
  have "os_path_join (os_getcwd w) b = os_getcwd w @ CHR ''/'' # b"
    using assms False by (simp add: os_path_join_def os_getcwd_def)
  moreover have "startswith (os_getcwd w) ''/''"
    by (simp add: os_getcwd_def startswith_slash)
  ultimately show ?thesis using False by auto
qed

lemma resolve_join_getcwd:
  assumes "\<not> startswith b ''/''"
  shows "resolve fs wd (os_path_join (os_getcwd w) b) =
           (case walk fs [] (split_slash (os_getcwd w)) of
              Inl e \<Rightarrow> Inl e
            | Inr base \<Rightarrow> walk fs base (split_slash b))"
proof -
  obtain x where x: "os_path_join (os_getcwd w) b = x @ CHR ''/'' # b"
    "split_slash (os_getcwd w) = (if endswith_slash (os_getcwd w) then split_slash x @ [[]] else split_slash x)"
    "x = [] \<or> startswith x ''/''"
    using join_getcwd_form [OF assms] by blast
  have s: "startswith (x @ CHR ''/'' # b) ''/''"
    using x(3) by (auto simp: startswith_slash)
  have r: "resolve fs wd (os_path_join (os_getcwd w) b) = walk fs [] (split_slash x @ split_slash b)"
    using s by (simp add: x(1) resolve_def split_slash_append)
  have skip: "(case walk fs q [[]] of Inl e \<Rightarrow> Inl e | Inr base \<Rightarrow> walk fs base (split_slash b))
                = walk fs q (split_slash b)" for q
    using walk_skip_empty [OF split_slash_nonempty, of fs q b] walk_append [of fs q "[[]]" "split_slash b"]
    by simp
  show ?thesis
  proof (cases "endswith_slash (os_getcwd w)")
    case True
    then have "split_slash (os_getcwd w) = split_slash x @ [[]]" using x(2) by simp
    then show ?thesis
      unfolding r by (cases "walk fs [] (split_slash x)") (simp_all add: walk_append skip del: walk.simps)
  next
    case False
    then have "split_slash (os_getcwd w) = split_slash x" using x(2) by simp
    then show ?thesis unfolding r by (simp add: walk_append)
  qed
qed

lemma last_split_join_getcwd:
  "\<not> startswith b ''/'' \<Longrightarrow> last (split_slash (os_path_join (os_getcwd w) b)) = last (split_slash b)"
  using join_getcwd_form [of b w] by (auto simp: split_slash_append split_slash_nonempty)

lemma join_getcwd_abs: "startswith (os_path_join (os_getcwd w) b) ''/''"
  by (auto simp: os_path_join_def os_getcwd_def startswith_slash)

lemma set_join_getcwd:
  "\<not> startswith b ''/'' \<Longrightarrow> set (os_path_join (os_getcwd w) b) = set (os_getcwd w) \<union> set b"
  by (auto simp: os_path_join_def os_getcwd_def)

section \<open>Lemmas: \<open>normpath\<close> and \<open>safe_join\<close>\<close>

text \<open>
  What \<open>safe_join\<close> has checked when it returns a path.
\<close>

lemma normpath_abs: "startswith p ''/'' \<Longrightarrow> startswith (normpath p) ''/''"
  by (auto simp: normpath_def Let_def startswith_slash numeral_2_eq_2)

lemma normpath_rel:
  "p \<noteq> [] \<Longrightarrow> \<not> startswith p ''/'' \<Longrightarrow>
   normpath p = (if join_slash (normpath_comps False [] (split_slash p)) = [] then ''.''
                 else join_slash (normpath_comps False [] (split_slash p)))"
  by (simp add: normpath_def Let_def)

lemma join_slash_dotdot:
  "nc \<noteq> [] \<Longrightarrow> hd nc = ''..'' \<Longrightarrow> join_slash nc = ''..'' \<or> startswith (join_slash nc) ''../''"
  by (induction nc rule: join_slash.induct) (auto simp: startswith_def)

lemma join_slash_nonempty: "nc \<noteq> [] \<Longrightarrow> \<forall>c\<in>set nc. c \<noteq> [] \<Longrightarrow> join_slash nc \<noteq> []"
  by (induction nc rule: join_slash.induct) auto

lemma normpath_comps_last:
  assumes "cs \<noteq> []" "last cs \<noteq> []" "last cs \<noteq> ''.''" "last cs \<noteq> ''..''"
  shows "normpath_comps b new cs \<noteq> [] \<and> last (normpath_comps b new cs) = last cs"
proof -
  have "cs = butlast cs @ [last cs]" using assms(1) by simp
  then have "normpath_comps b new cs = normpath_comps b (normpath_comps b new (butlast cs)) [last cs]"
    by (metis normpath_comps_append)
  then show ?thesis using assms by simp
qed

lemma safe_join_SomeD:
  assumes "safe_join d name = Some p" "name \<noteq> []"
  shows "\<not> startswith name ''/''"
    and "normpath_comps False [] (split_slash name) = []
           \<or> hd (normpath_comps False [] (split_slash name)) \<noteq> ''..''"
    and "p = os_path_join (if d = [] then ''.'' else d) (normpath name)"
    and "\<not> startswith (normpath name) ''/''"
proof -
  from assms have n: "\<not> startswith (normpath name) ''/''" "normpath name \<noteq> ''..''"
      "\<not> startswith (normpath name) ''../''"
    and p: "p = os_path_join (if d = [] then ''.'' else d) (normpath name)"
    by (auto simp: safe_join_def Let_def split: if_splits)
  show r: "\<not> startswith name ''/''" using n(1) normpath_abs by blast
  show "p = os_path_join (if d = [] then ''.'' else d) (normpath name)" by (rule p)
  show "\<not> startswith (normpath name) ''/''" by (rule n(1))
  show "normpath_comps False [] (split_slash name) = []
           \<or> hd (normpath_comps False [] (split_slash name)) \<noteq> ''..''"
  proof (rule ccontr)
    assume "\<not> ?thesis"
    then have "join_slash (normpath_comps False [] (split_slash name)) = ''..''
       \<or> startswith (join_slash (normpath_comps False [] (split_slash name))) ''../''"
      using join_slash_dotdot by blast
    then show False using n normpath_rel [OF assms(2) r]
      by (auto split: if_splits simp: startswith_def)
  qed
qed

section \<open>Lemmas: writing a file and reading it back\<close>

text \<open>
  A file saved under a name that \<open>safe_join\<close> accepts is found again by the download
  handler, with the bytes that were saved.
\<close>

lemma open_wb_InrD:
  assumes "open_wb fs wd p data = Inr fs'"
  shows "CHR 0x00 \<notin> set p"
    and "\<exists>q. resolve fs wd p = Inr q \<and> map_of fs q \<noteq> Some Dir \<and> fs' = AList.update q (File data) fs"
    and "last (split_slash p) \<noteq> []" "last (split_slash p) \<noteq> ''.''" "last (split_slash p) \<noteq> ''..''"
  using assms
  by (auto simp: open_wb_def split: if_splits sum.splits option.splits node.splits)

lemma update_file_dirs:
  "map_of fs q \<noteq> Some Dir \<Longrightarrow>
   (map_of (AList.update q (File data) fs) p = Some Dir) = (map_of fs p = Some Dir)"
  by (simp add: update_conv')

lemma save_then_read:
  assumes save: "open_wb fs wd (os_path_join (os_getcwd w) name) data = Inr fs'"
    and safe: "safe_join (os_getcwd w) name = Some p"
    and ne: "name \<noteq> []"
  shows "os_path_isfile fs' wd' (os_path_join root p)
       \<and> open_rb fs' wd' (os_path_join root p) = Inr data"
proof -
  let ?g = "os_getcwd w"
  let ?nc = "normpath_comps False [] (split_slash name)"
  have rel: "\<not> startswith name ''/''"
    and nc_safe: "?nc = [] \<or> hd ?nc \<noteq> ''..''"
    and p: "p = os_path_join ?g (normpath name)"
    and nrel: "\<not> startswith (normpath name) ''/''"
    using safe_join_SomeD [OF safe ne] by (simp_all add: os_getcwd_def)
  obtain q where nul: "CHR 0x00 \<notin> set (os_path_join ?g name)"
    and q: "resolve fs wd (os_path_join ?g name) = Inr q" "map_of fs q \<noteq> Some Dir"
      "fs' = AList.update q (File data) fs"
    and l: "last (split_slash name) \<noteq> []" "last (split_slash name) \<noteq> ''.''"
      "last (split_slash name) \<noteq> ''..''"
    using open_wb_InrD [OF save] last_split_join_getcwd [OF rel, of w] by auto
  obtain base where base: "walk fs [] (split_slash ?g) = Inr base"
      "walk fs base (split_slash name) = Inr q"
    using q(1) resolve_join_getcwd [OF rel, of fs wd w] by (auto split: sum.splits)
  have "walk fs (base @ []) (split_slash name) = Inr q" using base(2) by simp
  from walk_normpath [OF this _ _ nc_safe]
  have qeq: "q = base @ ?nc"
    and names: "\<forall>c\<in>set ?nc. c \<noteq> [] \<and> c \<noteq> ''.'' \<and> c \<noteq> ''..''"
    and dirs: "\<forall>k<length ?nc. map_of fs (base @ take k ?nc) = Some Dir"
    by simp_all
  have nc_ne: "?nc \<noteq> []"
    using normpath_comps_last [OF split_slash_nonempty l] by blast
  have nf: "normpath name = join_slash ?nc"
    using normpath_rel [OF ne rel] join_slash_nonempty [OF nc_ne] names by auto
  have noslash: "\<forall>c\<in>set ?nc. CHR ''/'' \<notin> set c"
    using normpath_comps_subset split_slash_comp_noslash by fastforce
  have split_nf: "split_slash (normpath name) = ?nc"
    unfolding nf by (rule split_slash_join [OF nc_ne noslash])
  have pabs: "os_path_join root p = p"
    unfolding p by (rule os_path_join_abs [OF join_getcwd_abs])
  have dir_eq: "\<And>x. (map_of fs' x = Some Dir) = (map_of fs x = Some Dir)"
    unfolding q(3) by (rule update_file_dirs [OF q(2)])
  have "walk fs base ?nc = Inr (base @ ?nc)"
    by (rule walk_names [OF names dirs])
  then have "resolve fs' wd' p = Inr q"
    unfolding p using resolve_join_getcwd [OF nrel, of fs' wd' w] walk_cong [of fs' fs, OF dir_eq] base(1)
    by (simp add: split_nf qeq)
  moreover have "map_of fs' q = Some (File data)"
    unfolding q(3) by (simp add: update_conv')
  moreover have "CHR 0x00 \<notin> set p"
  proof
    assume "CHR 0x00 \<in> set p"
    then have "CHR 0x00 \<in> set ?g \<or> CHR 0x00 \<in> set (join_slash ?nc)"
      unfolding p using set_join_getcwd [OF nrel, of w] nf by auto
    moreover have "CHR 0x00 \<notin> set ?g" "CHR 0x00 \<notin> set name"
      using nul set_join_getcwd [OF rel, of w] by auto
    ultimately obtain c where "c \<in> set ?nc" "CHR 0x00 \<in> set c"
      using join_slash_chars by fastforce
    then have "CHR 0x00 \<in> set name"
      using normpath_comps_subset [of c False "[]" "split_slash name"] split_slash_comp_chars
      by fastforce
    then show False using \<open>CHR 0x00 \<notin> set name\<close> by simp
  qed
  ultimately show ?thesis
    unfolding pabs by (simp add: os_path_isfile_def open_rb_def)
qed

lemma upload_file_okD:
  assumes "map_of (files request) ''file'' = Some file"
    and "upload_file request w = (Inr r, w')" and "status r = 200"
  shows "filename file \<noteq> []"
    and "r = \<lparr>status = 200, body = Text ''File uploaded successfully''\<rparr>"
    and "\<exists>fs'. open_wb (disk w) (cwd w) (os_path_join (os_getcwd w) (filename file)) (stream file) = Inr fs'
           \<and> w' = print ([CHR 0xE2, CHR 0x9C, CHR 0x85] @ '' Received file: '' @ filename file)
                     (w\<lparr>disk := fs'\<rparr>)"
  using assms
  by (auto simp: upload_file_def save_def Let_def split: if_splits sum.splits)

lemma os_getcwd_print [simp]: "os_getcwd (print l (w\<lparr>disk := d\<rparr>)) = os_getcwd w"
  by (simp add: os_getcwd_def print_def)

lemma upload_then_get:
  assumes f: "map_of (files request) ''file'' = Some file"
    and up: "upload_file request w = (Inr r, w')" and ok: "status r = 200"
    and safe: "safe_join (os_getcwd w) (filename file) = Some p"
  shows "get_file (filename file) w'
           = (Inr \<lparr>status = 200, body = Attachment (os_path_basename p) (stream file)\<rparr>, w')"
proof -
  obtain fs' where ne: "filename file \<noteq> []"
    and sv: "open_wb (disk w) (cwd w) (os_path_join (os_getcwd w) (filename file)) (stream file) = Inr fs'"
    and w': "w' = print ([CHR 0xE2, CHR 0x9C, CHR 0x85] @ '' Received file: '' @ filename file)
                     (w\<lparr>disk := fs'\<rparr>)"
    using upload_file_okD [OF f up ok] by blast
  have d: "disk w' = fs'" and g: "os_getcwd w' = os_getcwd w"
    by (simp_all add: w' print_def os_getcwd_def)
  have "os_path_isfile fs' (cwd w') (os_path_join (root_path w') p)
       \<and> open_rb fs' (cwd w') (os_path_join (root_path w') p) = Inr (stream file)"
    by (rule save_then_read [OF sv safe ne])
  moreover have "os_path_join (root_path w') p = p"
    using safe_join_SomeD(3) [OF safe ne] os_path_join_abs [OF join_getcwd_abs]
    by (simp add: os_getcwd_def)
  ultimately show ?thesis
    by (simp add: get_file_def send_from_directory_def send_file_def g d safe Let_def)
qed

section \<open>Lemmas: well-formed worlds\<close>

text \<open>
  In a well-formed world \<^verbatim>\<open>os.getcwd()\<close> resolves to the working directory, and an
  admissible name joined to it resolves to the entry of that name.
\<close>

lemma wf_worldD:
  assumes "wf_world w"
  shows "\<forall>c\<in>set (cwd w). valid_name c"
    and "\<forall>k\<le>length (cwd w). map_of (disk w) (take k (cwd w)) = Some Dir"
    and "\<forall>(p, n)\<in>set (disk w). \<forall>c\<in>set p. valid_name c"
  using assms by (auto simp: wf_world_def list_all_iff)

lemma wf_cwd_dir: "wf_world w \<Longrightarrow> map_of (disk w) (cwd w) = Some Dir"
  using wf_worldD(2) [of w] by fastforce

lemma walk_getcwd:
  assumes "wf_world w"
  shows "walk (disk w) [] (split_slash (os_getcwd w)) = Inr (cwd w)"
proof -
  have names: "\<forall>c\<in>set (cwd w). c \<noteq> [] \<and> c \<noteq> ''.'' \<and> c \<noteq> ''..''"
    and noslash: "\<forall>c\<in>set (cwd w). CHR ''/'' \<notin> set c"
    using wf_worldD(1) [OF assms] by (auto simp: valid_name_def)
  have dirs: "\<forall>k<length (cwd w). map_of (disk w) ([] @ take k (cwd w)) = Some Dir"
    using wf_worldD(2) [OF assms] by simp
  have root: "map_of (disk w) [] = Some Dir"
    using wf_worldD(2) [OF assms] by fastforce
  have s: "split_slash (os_getcwd w) = [] # split_slash (join_slash (cwd w))"
    by (simp add: os_getcwd_def)
  show ?thesis
  proof (cases "cwd w = []")
    case True
    then show ?thesis using root by (simp add: s)
  next
    case False
    then have "split_slash (join_slash (cwd w)) = cwd w"
      using split_slash_join noslash by blast
    then have "walk (disk w) [] (split_slash (os_getcwd w)) = walk (disk w) [] (cwd w)"
      unfolding s using walk_skip_empty [OF False] by simp
    also have "\<dots> = Inr ([] @ cwd w)"
      by (rule walk_names [OF names dirs])
    finally show ?thesis by simp
  qed
qed

lemma getcwd_no_nul: "wf_world w \<Longrightarrow> CHR 0x00 \<notin> set (os_getcwd w)"
  using wf_worldD(1) [of w] join_slash_chars [of "CHR 0x00" "cwd w"]
  by (auto simp: os_getcwd_def valid_name_def)

lemma resolve_getcwd: "wf_world w \<Longrightarrow> resolve (disk w) wd (os_getcwd w) = Inr (cwd w)"
  using walk_getcwd [of w]
  by (simp add: resolve_def) (simp add: os_getcwd_def startswith_def)

lemma resolve_join_wf:
  "wf_world w \<Longrightarrow> \<not> startswith b ''/'' \<Longrightarrow>
   resolve (disk w) wd (os_path_join (os_getcwd w) b) = walk (disk w) (cwd w) (split_slash b)"
  by (simp add: resolve_join_getcwd walk_getcwd)

lemma valid_name_rel: "valid_name n \<Longrightarrow> \<not> startswith n ''/''"
  by (auto simp: valid_name_def startswith_slash)

lemma resolve_child:
  assumes "wf_world w" "valid_name n"
  shows "resolve (disk w) wd (os_path_join (os_getcwd w) n) = Inr (cwd w @ [n])"
  using assms wf_cwd_dir [OF assms(1)]
  by (simp add: resolve_join_wf valid_name_rel)
     (simp add: valid_name_def split_slash_noslash)

lemma isfile_child:
  assumes "wf_world w" "valid_name n"
  shows "os_path_isfile (disk w) wd (os_path_join (os_getcwd w) n)
           = (\<exists>d. map_of (disk w) (cwd w @ [n]) = Some (File d))"
proof -
  have "CHR 0x00 \<notin> set (os_path_join (os_getcwd w) n)"
    using set_join_getcwd [OF valid_name_rel [OF assms(2)], of w] getcwd_no_nul [OF assms(1)] assms(2)
    by (simp add: valid_name_def)
  then show ?thesis
    by (simp add: os_path_isfile_def resolve_child [OF assms] split: option.splits node.splits)
qed

section \<open>Lemmas: the listing\<close>

text \<open>
  The listing of a well-formed world is the set of regular files directly inside the
  working directory.
\<close>

lemma set_entries: "set (entries fs d) = {n. d @ [n] \<in> fst ` set fs}"
proof (intro set_eqI iffI)
  fix n assume "n \<in> set (entries fs d)"
  then obtain k where k: "k \<in> fst ` set fs" "k \<noteq> []" "butlast k = d" "n = last k"
    by (auto simp: entries_def)
  then have "k = d @ [n]" by (metis append_butlast_last_id)
  with k(1) show "n \<in> {n. d @ [n] \<in> fst ` set fs}" by simp
next
  fix n assume "n \<in> {n. d @ [n] \<in> fst ` set fs}"
  then have "d @ [n] \<in> set (filter (\<lambda>k. k \<noteq> [] \<and> butlast k = d) (map fst fs))" by simp
  then have "last (d @ [n]) \<in> set (entries fs d)"
    unfolding entries_def set_remdups set_map by (rule imageI)
  then show "n \<in> set (entries fs d)" by simp
qed

lemma map_of_Some_in_keys: "map_of fs k = Some v \<Longrightarrow> k \<in> fst ` set fs"
  using map_of_eq_None_iff [of fs k] by auto

lemma entry_valid:
  assumes "wf_world w" "cwd w @ [n] \<in> fst ` set (disk w)"
  shows "valid_name n"
  using wf_worldD(3) [OF assms(1)] assms(2) by fastforce

lemma list_files_wf:
  assumes "wf_world w"
  shows "\<exists>L. list_files w = (Inr \<lparr>status = 200, body = Json_files L\<rparr>, w)
           \<and> set L = {n. \<exists>d. map_of (disk w) (cwd w @ [n]) = Some (File d)}"
proof -
  let ?L = "filter (\<lambda>f. os_path_isfile (disk w) (cwd w) (os_path_join (os_getcwd w) f))
              (entries (disk w) (cwd w))"
  have "os_listdir (disk w) (cwd w) (os_getcwd w) = Inr (entries (disk w) (cwd w))"
    using getcwd_no_nul [OF assms] resolve_getcwd [OF assms] wf_cwd_dir [OF assms]
    by (simp add: os_listdir_def)
  then have 1: "list_files w = (Inr \<lparr>status = 200, body = Json_files ?L\<rparr>, w)"
    by (simp add: list_files_def)
  have 2: "set ?L = {n. \<exists>d. map_of (disk w) (cwd w @ [n]) = Some (File d)}"
  proof (intro set_eqI iffI)
    fix n assume "n \<in> set ?L"
    then have e: "cwd w @ [n] \<in> fst ` set (disk w)"
      and i: "os_path_isfile (disk w) (cwd w) (os_path_join (os_getcwd w) n)"
      by (simp_all add: set_entries)
    show "n \<in> {n. \<exists>d. map_of (disk w) (cwd w @ [n]) = Some (File d)}"
      using i isfile_child [OF assms entry_valid [OF assms e]] by simp
  next
    fix n assume "n \<in> {n. \<exists>d. map_of (disk w) (cwd w @ [n]) = Some (File d)}"
    then obtain d where d: "map_of (disk w) (cwd w @ [n]) = Some (File d)" by blast
    then have e: "cwd w @ [n] \<in> fst ` set (disk w)" by (rule map_of_Some_in_keys)
    show "n \<in> set ?L"
      using e d isfile_child [OF assms entry_valid [OF assms e]] by (simp add: set_entries)
  qed
  show ?thesis using 1 2 by blast
qed

section \<open>Lemmas: uploads of plain names\<close>

text \<open>
  An upload under an admissible name that is no directory writes the entry of that
  name and keeps the world well formed; a sequence of such uploads adds their names to
  the regular files of the working directory.
\<close>

lemma wf_world_iff:
  "wf_world w =
     ((\<forall>c\<in>set (cwd w). valid_name c)
      \<and> (\<forall>k\<le>length (cwd w). map_of (disk w) (take k (cwd w)) = Some Dir)
      \<and> (\<forall>p\<in>fst ` set (disk w). \<forall>c\<in>set p. valid_name c))"
  by (auto simp: wf_world_def list_all_iff)

lemma open_wb_child:
  assumes "wf_world w" "valid_name n" "map_of (disk w) (cwd w @ [n]) \<noteq> Some Dir"
  shows "open_wb (disk w) wd (os_path_join (os_getcwd w) n) data
           = Inr (AList.update (cwd w @ [n]) (File data) (disk w))"
proof -
  have rel: "\<not> startswith n ''/''" by (rule valid_name_rel [OF assms(2)])
  have "CHR 0x00 \<notin> set (os_path_join (os_getcwd w) n)"
    using set_join_getcwd [OF rel, of w] getcwd_no_nul [OF assms(1)] assms(2)
    by (simp add: valid_name_def)
  moreover have "last (split_slash (os_path_join (os_getcwd w) n)) = n"
    using last_split_join_getcwd [OF rel, of w] assms(2)
    by (simp add: valid_name_def split_slash_noslash)
  moreover have "n \<noteq> []" "n \<noteq> ''.''" "n \<noteq> ''..''"
    using assms(2) by (simp_all add: valid_name_def)
  ultimately show ?thesis
    using assms(3) resolve_child [OF assms(1,2), of wd]
    by (auto simp: open_wb_def split: option.splits node.splits)
qed

lemma wf_world_write:
  assumes "wf_world w" "valid_name n" "map_of (disk w) (cwd w @ [n]) \<noteq> Some Dir"
  shows "wf_world (print l (w\<lparr>disk := AList.update (cwd w @ [n]) (File data) (disk w)\<rparr>))"
proof -
  have "\<forall>k\<le>length (cwd w).
          map_of (AList.update (cwd w @ [n]) (File data) (disk w)) (take k (cwd w)) = Some Dir"
    using assms(1) update_file_dirs [OF assms(3)] by (simp add: wf_world_iff)
  then show ?thesis
    using assms(1,2) by (simp add: wf_world_iff print_def dom_update)
qed

lemma upload_file_child:
  assumes "wf_world w" "map_of (files request) ''file'' = Some file"
    and "valid_name (filename file)"
    and "map_of (disk w) (cwd w @ [filename file]) \<noteq> Some Dir"
  shows "upload_file request w =
           (Inr \<lparr>status = 200, body = Text ''File uploaded successfully''\<rparr>,
            print ([CHR 0xE2, CHR 0x9C, CHR 0x85] @ '' Received file: '' @ filename file)
              (w\<lparr>disk := AList.update (cwd w @ [filename file]) (File (stream file)) (disk w)\<rparr>))"
proof -
  have "filename file \<noteq> []" using assms(3) by (simp add: valid_name_def)
  then show ?thesis
    using assms(2) open_wb_child [OF assms(1,3,4)]
    by (simp add: upload_file_def save_def Let_def)
qed

lemma http_status_200D: "http_status a = 200 \<Longrightarrow> \<exists>r. a = Inr r \<and> status r = 200"
  by (cases a) (auto simp: http_status_def split: error.splits)

lemma upload_ok_noslash:
  assumes wf: "wf_world w" and f: "map_of (files request) ''file'' = Some file"
    and ok: "http_status (fst (upload_file request w)) = 200"
    and ns: "CHR ''/'' \<notin> set (filename file)"
  shows "valid_name (filename file)"
    and "map_of (disk w) (cwd w @ [filename file]) \<noteq> Some Dir"
proof -
  let ?n = "filename file"
  obtain r where r: "upload_file request w = (Inr r, snd (upload_file request w))" "status r = 200"
    using http_status_200D [OF ok] by (metis prod.collapse)
  obtain fs' where sv: "open_wb (disk w) (cwd w) (os_path_join (os_getcwd w) ?n) (stream file) = Inr fs'"
    and ne: "?n \<noteq> []"
    using upload_file_okD [OF f r] by blast
  have rel: "\<not> startswith ?n ''/''" using ns by (auto simp: startswith_slash)
  have l: "last (split_slash (os_path_join (os_getcwd w) ?n)) = ?n"
    using last_split_join_getcwd [OF rel, of w] ns by (simp add: split_slash_noslash)
  have "CHR 0x00 \<notin> set ?n"
    using open_wb_InrD(1) [OF sv] set_join_getcwd [OF rel, of w] by simp
  then show v: "valid_name ?n"
    using open_wb_InrD(3,4,5) [OF sv] ns unfolding l by (simp add: valid_name_def)
  show "map_of (disk w) (cwd w @ [?n]) \<noteq> Some Dir"
    using open_wb_InrD(2) [OF sv] resolve_child [OF wf v, of "cwd w"] by auto
qed

lemma upload_each_Cons:
  "fst (upload_each ((name, data) # rest) w)
     = fst (upload_file (upload_request name data) w)
       # fst (upload_each rest (snd (upload_file (upload_request name data) w)))"
  "snd (upload_each ((name, data) # rest) w)
     = snd (upload_each rest (snd (upload_file (upload_request name data) w)))"
  by (simp_all add: Let_def case_prod_unfold)

lemma upload_request_file:
  "map_of (files (upload_request name data)) ''file'' = Some \<lparr>filename = name, stream = data\<rparr>"
  by (simp add: upload_request_def)

lemma upload_each_files:
  assumes "wf_world w"
    and "\<forall>n\<in>fst ` set nds. CHR ''/'' \<notin> set n"
    and "\<forall>a\<in>set (fst (upload_each nds w)). http_status a = 200"
  shows "wf_world (snd (upload_each nds w))
       \<and> cwd (snd (upload_each nds w)) = cwd w
       \<and> {n. \<exists>d. map_of (disk (snd (upload_each nds w))) (cwd w @ [n]) = Some (File d)}
           = {n. \<exists>d. map_of (disk w) (cwd w @ [n]) = Some (File d)} \<union> fst ` set nds"
  using assms
proof (induction nds arbitrary: w)
  case Nil
  then show ?case by simp
next
  case (Cons nd rest)
  obtain name data where nd: "nd = (name, data)" by (cases nd)
  let ?file = "\<lparr>filename = name, stream = data\<rparr>"
  let ?w1 = "snd (upload_file (upload_request name data) w)"
  have ok: "http_status (fst (upload_file (upload_request name data) w)) = 200"
    and oks: "\<forall>a\<in>set (fst (upload_each rest ?w1)). http_status a = 200"
    using Cons.prems(3) unfolding nd upload_each_Cons by simp_all
  have ns: "CHR ''/'' \<notin> set (filename ?file)" using Cons.prems(2) nd by simp
  have v: "valid_name (filename ?file)"
    and nd': "map_of (disk w) (cwd w @ [filename ?file]) \<noteq> Some Dir"
    using upload_ok_noslash [OF Cons.prems(1) upload_request_file ok ns] by blast+
  have w1: "?w1 = print ([CHR 0xE2, CHR 0x9C, CHR 0x85] @ '' Received file: '' @ name)
              (w\<lparr>disk := AList.update (cwd w @ [name]) (File data) (disk w)\<rparr>)"
    using upload_file_child [OF Cons.prems(1) upload_request_file v nd'] by simp
  have wf1: "wf_world ?w1"
    unfolding w1 using wf_world_write [OF Cons.prems(1) v nd'] by simp
  have c1: "cwd ?w1 = cwd w" by (simp add: w1 print_def)
  have d1: "disk ?w1 = AList.update (cwd w @ [name]) (File data) (disk w)"
    by (simp add: w1 print_def)
  have f1: "{n. \<exists>d. map_of (disk ?w1) (cwd w @ [n]) = Some (File d)}
           = insert name {n. \<exists>d. map_of (disk w) (cwd w @ [n]) = Some (File d)}"
    unfolding d1 by (auto simp: update_conv')
  have rest: "\<forall>n\<in>fst ` set rest. CHR ''/'' \<notin> set n" using Cons.prems(2) by simp
  have ih: "wf_world (snd (upload_each rest ?w1))
       \<and> cwd (snd (upload_each rest ?w1)) = cwd ?w1
       \<and> {n. \<exists>d. map_of (disk (snd (upload_each rest ?w1))) (cwd ?w1 @ [n]) = Some (File d)}
           = {n. \<exists>d. map_of (disk ?w1) (cwd ?w1 @ [n]) = Some (File d)} \<union> fst ` set rest"
    by (rule Cons.IH [OF wf1 rest oks])
  show ?case
    unfolding nd upload_each_Cons using ih f1 unfolding c1 by auto
qed

section \<open>Lemmas: what the download handler refuses\<close>





section \<open>Lemmas: what an upload leaves unchanged\<close>

text \<open>
  No upload creates or removes a directory.
\<close>

lemma upload_file_dirs:
  "(map_of (disk (snd (upload_file request w))) q = Some Dir) = (map_of (disk w) q = Some Dir)"
proof (cases "\<exists>file fs'. map_of (files request) ''file'' = Some file \<and> filename file \<noteq> []
    \<and> open_wb (disk w) (cwd w) (os_path_join (os_getcwd w) (filename file)) (stream file) = Inr fs'")
  case True
  then obtain fl fs' where f: "map_of (files request) ''file'' = Some fl" "filename fl \<noteq> []"
    and sv: "open_wb (disk w) (cwd w) (os_path_join (os_getcwd w) (filename fl)) (stream fl) = Inr fs'"
    by blast
  obtain x where x: "map_of (disk w) x \<noteq> Some Dir" "fs' = AList.update x (File (stream fl)) (disk w)"
    using open_wb_InrD(2) [OF sv] by blast
  have "disk (snd (upload_file request w)) = fs'"
    using f sv by (simp add: upload_file_def save_def Let_def print_def)
  then show ?thesis using update_file_dirs [OF x(1)] x(2) by simp
next
  case False
  then have "snd (upload_file request w) = w"
    by (auto simp: upload_file_def save_def Let_def split: option.splits sum.splits)
  then show ?thesis by simp
qed

section \<open>Lemmas: filenames without a slash\<close>

text \<open>
  A filename without a slash that was saved is a plain name; \<open>safe_join\<close> accepts it
  as it is.
\<close>

lemma normpath_name:
  assumes "CHR ''/'' \<notin> set n" "n \<noteq> []" "n \<noteq> ''.''" "n \<noteq> ''..''"
  shows "normpath n = n"
proof -
  have "\<not> startswith n ''/''" using assms(1) by (auto simp: startswith_slash)
  then show ?thesis
    using assms by (simp add: normpath_rel split_slash_noslash)
qed

lemma safe_join_name:
  assumes "CHR ''/'' \<notin> set n" "n \<noteq> []" "n \<noteq> ''.''" "n \<noteq> ''..''"
  shows "safe_join (os_getcwd w) n = Some (os_path_join (os_getcwd w) n)"
proof -
  have "\<not> startswith n ''/''" using assms(1) by (auto simp: startswith_slash)
  moreover have "\<not> startswith n ''../''"
  proof
    assume "startswith n ''../''"
    then have "take (length ''../'') n = ''../''" by (simp only: startswith_def)
    then have "CHR ''/'' \<in> set (take (length ''../'') n)" by simp
    then show False using assms(1) by (meson in_set_takeD)
  qed
  ultimately show ?thesis
    using assms normpath_name [OF assms]
    by (simp add: safe_join_def Let_def os_path_isabs_def os_getcwd_def)
qed

lemma upload_ok_name:
  assumes f: "map_of (files request) ''file'' = Some file"
    and up: "upload_file request w = (Inr r, w')" and ok: "status r = 200"
    and ns: "CHR ''/'' \<notin> set (filename file)"
  shows "filename file \<noteq> []" "filename file \<noteq> ''.''" "filename file \<noteq> ''..''"
proof -
  obtain fs' where sv: "open_wb (disk w) (cwd w) (os_path_join (os_getcwd w) (filename file))
      (stream file) = Inr fs'"
    using upload_file_okD(3) [OF f up ok] by blast
  have rel: "\<not> startswith (filename file) ''/''" using ns by (auto simp: startswith_slash)
  have l: "last (split_slash (os_path_join (os_getcwd w) (filename file))) = filename file"
    using last_split_join_getcwd [OF rel, of w] ns by (simp add: split_slash_noslash)
  show "filename file \<noteq> []" "filename file \<noteq> ''.''" "filename file \<noteq> ''..''"
    using open_wb_InrD(3,4,5) [OF sv] unfolding l by simp_all
qed

lemma upload_then_get_name:
  assumes f: "map_of (files request) ''file'' = Some file"
    and up: "upload_file request w = (Inr r, w')" and ok: "status r = 200"
    and ns: "CHR ''/'' \<notin> set (filename file)"
  shows "get_file (filename file) w'
           = (Inr \<lparr>status = 200, body = Attachment (filename file) (stream file)\<rparr>, w')"
proof -
  note n = upload_ok_name [OF f up ok ns]
  have rel: "\<not> startswith (filename file) ''/''" using ns by (auto simp: startswith_slash)
  have "os_path_basename (os_path_join (os_getcwd w) (filename file)) = filename file"
    using last_split_join_getcwd [OF rel, of w] ns
    by (simp add: os_path_basename_def split_slash_noslash)
  then show ?thesis
    using upload_then_get [OF f up ok safe_join_name [OF ns n]] by simp
qed

section \<open>Upload, then download\<close>

text \<open>
  Claim C1, as stated, fails: a part with a non-empty filename is not always saved. The
  storage directory of the example deployment has a subdirectory \<^verbatim>\<open>docs\<close>; for an
  upload named \<^verbatim>\<open>docs\<close> the handler raises out of \<^verbatim>\<open>file.save\<close> (nothing in it
  catches the error, the framework answers 500), and the download of \<^verbatim>\<open>docs\<close>
  afterwards is \<open>NotFound\<close>, not the uploaded bytes.
\<close>

theorem upload_download_roundtrip_counterexample:
  "fst (upload_file (upload_request ''docs'' ''hello'') store_world) = Inl OSError
   \<and> fst (get_file ''docs'' (snd (upload_file (upload_request ''docs'' ''hello'') store_world)))
     = Inl NotFound"
  by code_simp

text \<open>
  Claim C1, amended. Whenever the upload handler answers 200 for a part whose filename
  \<open>f\<close> has no slash, the download of \<open>f\<close> right after answers 200 with exactly the
  uploaded bytes, as an attachment named \<open>f\<close>, and changes nothing.
\<close>

theorem upload_download_roundtrip:
  assumes "map_of (files request) ''file'' = Some file"
    and "upload_file request w = (Inr r, w')" and "status r = 200"
    and "CHR ''/'' \<notin> set (filename file)"
  shows "get_file (filename file) w'
           = (Inr \<lparr>status = 200, body = Attachment (filename file) (stream file)\<rparr>, w')"
  using assms by (rule upload_then_get_name)

theorem upload_download_roundtrip_witness:
  "get_file ''notes.txt'' (snd (upload_file (upload_request ''notes.txt'' ''hello'') store_world))
     = (Inr \<lparr>status = 200, body = Attachment ''notes.txt'' ''hello''\<rparr>,
        snd (upload_file (upload_request ''notes.txt'' ''hello'') store_world))"
proof -
  let ?r = "\<lparr>status = 200, body = Text ''File uploaded successfully''\<rparr>"
  let ?f = "\<lparr>filename = ''notes.txt'', stream = ''hello''\<rparr>"
  have f: "map_of (files (upload_request ''notes.txt'' ''hello'')) ''file'' = Some ?f"
    by (simp add: upload_request_def)
  have u: "upload_file (upload_request ''notes.txt'' ''hello'') store_world
              = (Inr ?r, snd (upload_file (upload_request ''notes.txt'' ''hello'') store_world))"
    by code_simp
  have s: "status ?r = 200" and ns: "CHR ''/'' \<notin> set (filename ?f)"
    by simp_all
  show ?thesis
    using upload_download_roundtrip [OF f u s ns] by simp
qed

section \<open>The upload handler's client errors\<close>

text \<open>
  Claim C2. The upload handler answers 400 exactly when the request has no \<^verbatim>\<open>file\<close>
  part or the part's filename is empty; the body is \<^verbatim>\<open>No file part\<close> in the first case
  and \<^verbatim>\<open>No selected file\<close> in the second, and in both the world (file system
  included) is left as it was.
\<close>

theorem upload_file_400_iff:
  "((http_status (fst (upload_file request w)) = 400) =
      (map_of (files request) ''file'' = None \<or>
       (\<exists>file. map_of (files request) ''file'' = Some file \<and> filename file = [])))
   \<and> (map_of (files request) ''file'' = None \<longrightarrow>
        upload_file request w = (Inr \<lparr>status = 400, body = Text ''No file part''\<rparr>, w))
   \<and> (\<forall>file. map_of (files request) ''file'' = Some file \<and> filename file = [] \<longrightarrow>
        upload_file request w = (Inr \<lparr>status = 400, body = Text ''No selected file''\<rparr>, w))"
  by (auto simp: upload_file_def http_status_def Let_def split: option.splits sum.splits error.splits)

theorem upload_file_400_iff_witness:
  "upload_file \<lparr>files = []\<rparr> store_world =
     (Inr \<lparr>status = 400, body = Text ''No file part''\<rparr>, store_world)
   \<and> upload_file (upload_request [] ''abc'') store_world =
     (Inr \<lparr>status = 400, body = Text ''No selected file''\<rparr>, store_world)
   \<and> http_status (fst (upload_file (upload_request ''notes.txt'' ''hello'') store_world)) \<noteq> 400"
proof -
  have a: "map_of (files \<lparr>files = []\<rparr>) ''file'' = None"
    by simp
  have b: "map_of (files (upload_request [] ''abc'')) ''file'' = Some \<lparr>filename = [], stream = ''abc''\<rparr>"
    by (simp add: upload_request_def)
  have c: "map_of (files (upload_request ''notes.txt'' ''hello'')) ''file''
             = Some \<lparr>filename = ''notes.txt'', stream = ''hello''\<rparr>"
    by (simp add: upload_request_def)
  show ?thesis
    using upload_file_400_iff [of "\<lparr>files = []\<rparr>" store_world]
      upload_file_400_iff [of "upload_request [] ''abc''" store_world]
      upload_file_400_iff [of "upload_request ''notes.txt'' ''hello''" store_world]
    by (simp add: a b c)
qed

section \<open>The last upload wins\<close>

text \<open>
  Claim C3, as stated, fails for the reason C1 does: two uploads named \<^verbatim>\<open>docs\<close>, the
  name of an existing subdirectory, both raise, and the download of \<^verbatim>\<open>docs\<close> after
  the second one returns neither content but \<open>NotFound\<close>.
\<close>

theorem second_upload_wins_counterexample:
  "fst (upload_file (upload_request ''docs'' ''v1'') store_world) = Inl OSError
   \<and> fst (upload_file (upload_request ''docs'' ''v2'')
            (snd (upload_file (upload_request ''docs'' ''v1'') store_world))) = Inl OSError
   \<and> fst (get_file ''docs''
            (snd (upload_file (upload_request ''docs'' ''v2'')
               (snd (upload_file (upload_request ''docs'' ''v1'') store_world)))))
     = Inl NotFound"
  by code_simp

text \<open>
  Claim C3, amended. When one filename without a slash is uploaded twice with different
  contents and the second upload is answered 200 (whatever the first did), the download
  after the second upload answers 200 with the second content, and so not with the
  first.
\<close>

theorem second_upload_wins:
  assumes "map_of (files request1) ''file'' = Some file1"
    and "map_of (files request2) ''file'' = Some file2"
    and "filename file2 = filename file1" and "stream file2 \<noteq> stream file1"
    and "w1 = snd (upload_file request1 w)"
    and "upload_file request2 w1 = (Inr r2, w2)" and "status r2 = 200"
    and "CHR ''/'' \<notin> set (filename file1)"
  shows "get_file (filename file1) w2
           = (Inr \<lparr>status = 200, body = Attachment (filename file1) (stream file2)\<rparr>, w2)
       \<and> get_file (filename file1) w2
           \<noteq> (Inr \<lparr>status = 200, body = Attachment (filename file1) (stream file1)\<rparr>, w2)"
proof -
  have "CHR ''/'' \<notin> set (filename file2)" using assms(3,8) by simp
  from upload_then_get_name [OF assms(2,6,7) this] show ?thesis
    using assms(3,4) by simp
qed

theorem second_upload_wins_witness:
  "get_file ''notes.txt''
     (snd (upload_file (upload_request ''notes.txt'' ''second'')
        (snd (upload_file (upload_request ''notes.txt'' ''first'') store_world))))
   = (Inr \<lparr>status = 200, body = Attachment ''notes.txt'' ''second''\<rparr>,
      snd (upload_file (upload_request ''notes.txt'' ''second'')
        (snd (upload_file (upload_request ''notes.txt'' ''first'') store_world))))"
proof -
  let ?r = "\<lparr>status = 200, body = Text ''File uploaded successfully''\<rparr>"
  let ?f1 = "\<lparr>filename = ''notes.txt'', stream = ''first''\<rparr>"
  let ?f2 = "\<lparr>filename = ''notes.txt'', stream = ''second''\<rparr>"
  let ?w1 = "snd (upload_file (upload_request ''notes.txt'' ''first'') store_world)"
  let ?w2 = "snd (upload_file (upload_request ''notes.txt'' ''second'') ?w1)"
  have f1: "map_of (files (upload_request ''notes.txt'' ''first'')) ''file'' = Some ?f1"
    and f2: "map_of (files (upload_request ''notes.txt'' ''second'')) ''file'' = Some ?f2"
    by (simp_all add: upload_request_def)
  have u2: "upload_file (upload_request ''notes.txt'' ''second'') ?w1 = (Inr ?r, ?w2)"
    by code_simp
  have e: "filename ?f2 = filename ?f1" "stream ?f2 \<noteq> stream ?f1" "status ?r = 200"
    "CHR ''/'' \<notin> set (filename ?f1)"
    by simp_all
  show ?thesis
    using second_upload_wins [OF f1 f2 e(1,2) refl u2 e(3,4)] by simp
qed

section \<open>Downloading what is not there\<close>




section \<open>The listing after uploads\<close>

text \<open>
  Claim C5, as stated, fails: the storage directory is the working directory of the
  process, and the listing shows what is in it. After the single upload of
  \<^verbatim>\<open>notes.txt\<close> into the example deployment the listing is not that one name: it also
  holds \<^verbatim>\<open>server.py\<close>, which was there before.
\<close>

theorem listing_after_uploads_counterexample:
  "fst (upload_each [(''notes.txt'', ''hello'')] store_world)
     = [Inr \<lparr>status = 200, body = Text ''File uploaded successfully''\<rparr>]
   \<and> fst (list_files (snd (upload_each [(''notes.txt'', ''hello'')] store_world)))
     = Inr \<lparr>status = 200, body = Json_files [''server.py'', ''notes.txt'']\<rparr>
   \<and> set [''server.py'', ''notes.txt''] \<noteq> {''notes.txt''}"
  by code_simp

text \<open>
  Claim C5, amended. In a well-formed world, after uploads of filenames without a slash
  that were all answered 200, the listing answers 200 with a \<^verbatim>\<open>files\<close> array that
  holds, as a set, the names of the regular files that were directly in the storage
  directory before, together with the uploaded names (so exactly the uploaded names when
  the directory held no regular file before). Subdirectories are not listed.
\<close>

theorem listing_after_uploads:
  assumes "wf_world w"
    and "\<forall>n\<in>fst ` set uploads. CHR ''/'' \<notin> set n"
    and "\<forall>a\<in>set (fst (upload_each uploads w)). http_status a = 200"
  shows "\<exists>L. list_files (snd (upload_each uploads w))
               = (Inr \<lparr>status = 200, body = Json_files L\<rparr>, snd (upload_each uploads w))
           \<and> set L = {n. \<exists>d. map_of (disk w) (cwd w @ [n]) = Some (File d)} \<union> fst ` set uploads"
proof -
  let ?w' = "snd (upload_each uploads w)"
  have u: "wf_world ?w'" "cwd ?w' = cwd w"
    "{n. \<exists>d. map_of (disk ?w') (cwd w @ [n]) = Some (File d)}
       = {n. \<exists>d. map_of (disk w) (cwd w @ [n]) = Some (File d)} \<union> fst ` set uploads"
    using upload_each_files [OF assms] by blast+
  obtain L where "list_files ?w' = (Inr \<lparr>status = 200, body = Json_files L\<rparr>, ?w')"
    "set L = {n. \<exists>d. map_of (disk ?w') (cwd ?w' @ [n]) = Some (File d)}"
    using list_files_wf [OF u(1)] by blast
  then show ?thesis using u(2,3) by auto
qed

theorem listing_after_uploads_witness:
  "fst (list_files (snd (upload_each [(''notes.txt'', ''hello''), (''b.bin'', ''xyz'')] store_world)))
     = Inr \<lparr>status = 200, body = Json_files [''server.py'', ''notes.txt'', ''b.bin'']\<rparr>
   \<and> set [''server.py'', ''notes.txt'', ''b.bin'']
     = {n. \<exists>d. map_of (disk store_world) (cwd store_world @ [n]) = Some (File d)}
       \<union> {''notes.txt'', ''b.bin''}"
proof -
  let ?ups = "[(''notes.txt'', ''hello''), (''b.bin'', ''xyz'')]"
  have wf: "wf_world store_world"
    by code_simp
  have ns: "\<forall>n\<in>fst ` set ?ups. CHR ''/'' \<notin> set n"
    by simp
  have ok: "\<forall>a\<in>set (fst (upload_each ?ups store_world)). http_status a = 200"
    by code_simp
  have l: "fst (list_files (snd (upload_each ?ups store_world)))
     = Inr \<lparr>status = 200, body = Json_files [''server.py'', ''notes.txt'', ''b.bin'']\<rparr>"
    by code_simp
  obtain L where L: "list_files (snd (upload_each ?ups store_world))
        = (Inr \<lparr>status = 200, body = Json_files L\<rparr>, snd (upload_each ?ups store_world))"
    "set L = {n. \<exists>d. map_of (disk store_world) (cwd store_world @ [n]) = Some (File d)}
               \<union> fst ` set ?ups"
    using listing_after_uploads [OF wf ns ok] by blast
  have "L = [''server.py'', ''notes.txt'', ''b.bin'']"
    using L(1) l by simp
  moreover have "fst ` set ?ups = {''notes.txt'', ''b.bin''}"
    by simp
  ultimately show ?thesis
    using L(2) l by simp
qed

section \<open>A flat store\<close>

text \<open>
  Claim C6 says that every file the upload handler accepts lies directly inside the
  storage directory. The code does not keep to that: it joins the filename of the part,
  as the client sent it, to the working directory. In the example deployment the upload
  named \<^verbatim>\<open>docs/a.txt\<close> is answered 200 and written inside the subdirectory
  \<^verbatim>\<open>docs\<close>, and the upload named \<^verbatim>\<open>../notes.txt\<close> is answered 200 and written to
  the parent of the storage directory; in neither case is there a file of the given name
  directly inside the storage directory. The handler's own comment
  (\<^verbatim>\<open>Save the file in the same folder as this script\<close>) and the download handler, which
  refuses names that leave the directory, say what was meant.
\<close>

theorem upload_file_leaves_storage_directory:
  "fst (upload_file (upload_request ''docs/a.txt'' ''abc'') store_world)
     = Inr \<lparr>status = 200, body = Text ''File uploaded successfully''\<rparr>
   \<and> map_of (disk (snd (upload_file (upload_request ''docs/a.txt'' ''abc'') store_world)))
        (cwd store_world @ [''docs'', ''a.txt'']) = Some (File ''abc'')
   \<and> map_of (disk (snd (upload_file (upload_request ''docs/a.txt'' ''abc'') store_world)))
        (cwd store_world @ [''docs/a.txt'']) = None
   \<and> fst (upload_file (upload_request ''../notes.txt'' ''hello'') store_world)
     = Inr \<lparr>status = 200, body = Text ''File uploaded successfully''\<rparr>
   \<and> map_of (disk (snd (upload_file (upload_request ''../notes.txt'' ''hello'') store_world)))
        [''srv'', ''notes.txt''] = Some (File ''hello'')
   \<and> map_of (disk (snd (upload_file (upload_request ''../notes.txt'' ''hello'') store_world)))
        (cwd store_world @ [''../notes.txt'']) = None"
  by code_simp

text \<open>
  What does hold of the store: no upload ever creates (or removes) a directory; in a
  well-formed world, an upload that is answered 200 and whose filename has no slash
  writes its file directly inside the storage directory, under that name, and changes
  nothing else on disk; and the listing names only regular files that lie directly inside
  the storage directory.
\<close>

lemma flat_store_plain_names:
  "(\<forall>q. (map_of (disk (snd (upload_file request w))) q = Some Dir) = (map_of (disk w) q = Some Dir))
   \<and> (wf_world w \<and> map_of (files request) ''file'' = Some file
        \<and> http_status (fst (upload_file request w)) = 200 \<and> CHR ''/'' \<notin> set (filename file)
      \<longrightarrow> disk (snd (upload_file request w))
            = AList.update (cwd w @ [filename file]) (File (stream file)) (disk w))
   \<and> (wf_world w
      \<longrightarrow> (\<exists>L. list_files w = (Inr \<lparr>status = 200, body = Json_files L\<rparr>, w)
             \<and> (\<forall>n\<in>set L. CHR ''/'' \<notin> set n
                   \<and> (\<exists>d. map_of (disk w) (cwd w @ [n]) = Some (File d)))))"
proof (intro conjI allI impI)
  fix q
  show "(map_of (disk (snd (upload_file request w))) q = Some Dir) = (map_of (disk w) q = Some Dir)"
    by (rule upload_file_dirs)
next
  assume a: "wf_world w \<and> map_of (files request) ''file'' = Some file
        \<and> http_status (fst (upload_file request w)) = 200 \<and> CHR ''/'' \<notin> set (filename file)"
  then have wf: "wf_world w" and f: "map_of (files request) ''file'' = Some file"
    and ok: "http_status (fst (upload_file request w)) = 200"
    and ns: "CHR ''/'' \<notin> set (filename file)"
    by simp_all
  have v: "valid_name (filename file)"
    and nd: "map_of (disk w) (cwd w @ [filename file]) \<noteq> Some Dir"
    using upload_ok_noslash [OF wf f ok ns] by blast+
  show "disk (snd (upload_file request w))
            = AList.update (cwd w @ [filename file]) (File (stream file)) (disk w)"
    using upload_file_child [OF wf f v nd] by (simp add: print_def)
next
  assume wf: "wf_world w"
  obtain L where L: "list_files w = (Inr \<lparr>status = 200, body = Json_files L\<rparr>, w)"
    "set L = {n. \<exists>d. map_of (disk w) (cwd w @ [n]) = Some (File d)}"
    using list_files_wf [OF wf] by blast
  have "\<forall>n\<in>set L. CHR ''/'' \<notin> set n \<and> (\<exists>d. map_of (disk w) (cwd w @ [n]) = Some (File d))"
  proof
    fix n assume "n \<in> set L"
    then obtain d where d: "map_of (disk w) (cwd w @ [n]) = Some (File d)" using L(2) by blast
    then have "valid_name n"
      using entry_valid [OF wf map_of_Some_in_keys] by blast
    then show "CHR ''/'' \<notin> set n \<and> (\<exists>d. map_of (disk w) (cwd w @ [n]) = Some (File d))"
      using d by (simp add: valid_name_def)
  qed
  with L(1) show "\<exists>L. list_files w = (Inr \<lparr>status = 200, body = Json_files L\<rparr>, w)
             \<and> (\<forall>n\<in>set L. CHR ''/'' \<notin> set n
                   \<and> (\<exists>d. map_of (disk w) (cwd w @ [n]) = Some (File d)))"
    by blast
qed

section \<open>Downloads do not leave the storage directory\<close>



section \<open>A successful upload\<close>




section \<open>Listing and download are read-only\<close>

text \<open>
  Claim C9. Neither \<^verbatim>\<open>GET /files\<close> nor \<^verbatim>\<open>GET /files/<filename>\<close> changes the world:
  whatever the request and whether the handler answers or raises, the file system (and
  the rest of the state) after the call is the one before it.
\<close>

theorem list_files_get_file_read_only:
  "snd (list_files w) = w \<and> snd (get_file name w) = w"
  by (simp add: list_files_def get_file_def split: sum.splits)

section \<open>The listing shows every regular file of the directory\<close>

text \<open>
  Claim C10. In a well-formed world the listing answers 200 with a \<^verbatim>\<open>files\<close> array
  that holds, as a set, exactly the names of the regular files directly inside the
  working directory at the time of the request. It depends on the file system alone,
  not on how a file got there: a file that was never uploaded is listed as well.
\<close>

theorem list_files_all_regular_files:
  assumes "wf_world w"
  shows "\<exists>L. list_files w = (Inr \<lparr>status = 200, body = Json_files L\<rparr>, w)
           \<and> set L = {n. \<exists>d. map_of (disk w) (cwd w @ [n]) = Some (File d)}"
  using assms by (rule list_files_wf)

theorem list_files_all_regular_files_witness:
  "list_files store_world = (Inr \<lparr>status = 200, body = Json_files [''server.py'']\<rparr>, store_world)
   \<and> [''server.py''] \<in> {L. set L = {n. \<exists>d. map_of (disk store_world) (cwd store_world @ [n]) = Some (File d)}}"
proof -
  have wf: "wf_world store_world"
    by code_simp
  have l: "list_files store_world
             = (Inr \<lparr>status = 200, body = Json_files [''server.py'']\<rparr>, store_world)"
    by code_simp
  show ?thesis
    using list_files_all_regular_files [OF wf] l by auto
qed

end
